theory Spec2Isabelle
  imports Main
begin

section \<open>The application loop of main.py\<close>

text \<open>
  The program is one function, \<open>main\<close>: it sets up the window and the audio, creates the
  first \<open>Game\<close>, and then runs a frame loop over the three states of the application.
  The loop body is embedded as the function \<open>main_frame\<close> from the state of the local
  variables before an iteration and the input of that frame to the state after it and the
  list of calls the iteration made on the screen, the sound effects and the \<open>Game\<close>.
  The class \<open>Game\<close> (module \<open>pong.game\<close>), the loader \<open>load_sfx\<close> and the two control
  functions are imported by main.py and are parameters of the embedding.
\<close>

subsection \<open>Data\<close>

text \<open>\<open>class State(Enum)\<close>, lines 16 to 19.\<close>

datatype State = MENU | PLAY | GAME_OVER

text \<open>The two control functions of \<open>pong.input\<close>; main.py only passes them on by name.\<close>

datatype control = p1_controls | p2_controls

type_synonym control_pair = "control option \<times> control option"

text \<open>The type of an event of \<open>pygame.event.get()\<close>: the loop only asks whether it is
  \<open>pygame.QUIT\<close>.\<close>

datatype ev_type = QUIT | OTHER

text \<open>
  What one iteration reads from outside: the events queued since the last poll, the three
  keys main.py looks at in \<open>pygame.key.get_pressed()\<close>, and \<open>world\<close>, which stands for
  everything else a \<open>Game\<close> may read while it is built or updated (the other keys, the
  random numbers).
\<close>

record 'w frame_input =
  events :: "ev_type list"
  K_SPACE :: bool
  K_UP :: bool
  K_DOWN :: bool
  world :: 'w

text \<open>
  The exceptions the expressions of main.py itself can raise: \<open>sfx["up"][0]\<close> raises
  KeyError on a missing cue and IndexError on a cue without clips, and \<open>max\<close> of an empty
  sequence raises ValueError.
\<close>

datatype error = KeyError string | IndexError | ValueError

text \<open>
  The calls an iteration makes, in their order: \<open>clip.play()\<close>, \<open>game.update()\<close>,
  \<open>game.draw(screen)\<close> (with the game it draws), the menu screen of lines 88 to 94 (with the
  player count it prints), the game-over screen of lines 115 to 119,
  \<open>pygame.display.flip()\<close> and \<open>clock.tick(FPS)\<close>.
\<close>

datatype ('g, 'c) effect =
  SfxPlay 'c
  | GameUpdate
  | GameDraw 'g
  | MenuScreen int
  | GameOverScreen
  | Flip
  | Tick

text \<open>
  The interface of the class \<open>Game\<close> that main.py uses: the constructor
  \<open>Game(controls, sfx)\<close>, the method \<open>update()\<close>, the attribute \<open>bats\<close> and the attribute
  \<open>score\<close> of a bat. The loader's result \<open>sfx\<close> is fixed for one run of the program, so the
  constructor is taken with it already applied.
\<close>

record ('g, 'b, 'w) game_class =
  Game :: "'w \<Rightarrow> control_pair \<Rightarrow> 'g"
  update :: "'w frame_input \<Rightarrow> 'g \<Rightarrow> 'g"
  bats :: "'g \<Rightarrow> 'b list"
  score :: "'b \<Rightarrow> int"

text \<open>The local variables of \<open>main\<close> that live across iterations, lines 40 to 50.\<close>

record 'g app =
  state :: State
  num_players :: int
  controls :: control_pair
  game :: 'g
  space_down :: bool
  running :: bool

subsection \<open>The pieces of one iteration\<close>

text \<open>Lines 53 to 55: every queued event is looked at, and a QUIT clears \<open>running\<close>.\<close>

definition poll_events :: "ev_type list \<Rightarrow> bool \<Rightarrow> bool" where
  "poll_events evs r0 = fold (\<lambda>ev r. if ev = QUIT then False else r) evs r0"

text \<open>Lines 59 to 62: the pair of \<open>space_pressed\<close> and the new \<open>space_down\<close>.\<close>

definition space_edge :: "bool \<Rightarrow> bool \<Rightarrow> bool \<times> bool" where
  "space_edge space_now space_down0 =
     (let space_pressed = space_now \<and> \<not> space_down0 in (space_pressed, space_now))"

text \<open>\<open>sfx[name][0].play()\<close>.\<close>

definition sfx_play :: "(string \<rightharpoonup> 'c list) \<Rightarrow> string \<Rightarrow> error + ('g, 'c) effect" where
  "sfx_play sfx name =
     (case sfx name of
        None \<Rightarrow> Inl (KeyError name)
      | Some [] \<Rightarrow> Inl IndexError
      | Some (c # _) \<Rightarrow> Inr (SfxPlay c))"

text \<open>Python's \<open>max\<close> over a sequence of integers.\<close>

fun py_max :: "int list \<Rightarrow> error + int" where
  "py_max [] = Inl ValueError"
| "py_max (x # xs) = Inr (fold (\<lambda>y m. if y > m then y else m) xs x)"

text \<open>Lines 67 to 72: the selection between one and two players.\<close>

definition menu_select ::
  "(string \<rightharpoonup> 'c list) \<Rightarrow> 'w frame_input \<Rightarrow> 'g app \<Rightarrow> error + ('g app \<times> ('g, 'c) effect list)"
where
  "menu_select sfx inp s =
     (if K_UP inp \<and> num_players s = 2 then
        (case sfx_play sfx ''up'' of
           Inl e \<Rightarrow> Inl e
         | Inr p \<Rightarrow> Inr (s\<lparr>num_players := 1\<rparr>, [p]))
      else if K_DOWN inp \<and> num_players s = 1 then
        (case sfx_play sfx ''down'' of
           Inl e \<Rightarrow> Inl e
         | Inr p \<Rightarrow> Inr (s\<lparr>num_players := 2\<rparr>, [p]))
      else Inr (s, []))"

text \<open>Lines 75 to 85: start the game on \<open>space_pressed\<close>, else animate the background game.\<close>

definition menu_start ::
  "('g, 'b, 'w) game_class \<Rightarrow> 'w frame_input \<Rightarrow> bool \<Rightarrow> 'g app \<Rightarrow> 'g app \<times> ('g, 'c) effect list"
where
  "menu_start G inp space_pressed s =
     (if space_pressed then
        (let c = (Some p1_controls, if num_players s = 2 then Some p2_controls else None)
         in (s\<lparr>state := PLAY, controls := c, game := Game G (world inp) c\<rparr>, []))
      else (s\<lparr>game := update G inp (game s)\<rparr>, [GameUpdate]))"

text \<open>Lines 65 to 94: the branch of the state MENU.\<close>

definition menu_frame ::
  "('g, 'b, 'w) game_class \<Rightarrow> (string \<rightharpoonup> 'c list) \<Rightarrow> 'w frame_input \<Rightarrow> bool \<Rightarrow> 'g app
     \<Rightarrow> error + ('g app \<times> ('g, 'c) effect list)"
where
  "menu_frame G sfx inp space_pressed s =
     (case menu_select sfx inp s of
        Inl e \<Rightarrow> Inl e
      | Inr (s1, fx1) \<Rightarrow>
          (let (s2, fx2) = menu_start G inp space_pressed s1
           in Inr (s2, fx1 @ fx2 @ [MenuScreen (num_players s2)])))"

text \<open>Lines 97 to 103: the branch of the state PLAY.\<close>

definition play_frame ::
  "('g, 'b, 'w) game_class \<Rightarrow> 'w frame_input \<Rightarrow> 'g app \<Rightarrow> error + ('g app \<times> ('g, 'c) effect list)"
where
  "play_frame G inp s =
     (let g = update G inp (game s);
          s1 = s\<lparr>game := g\<rparr>
      in case py_max (map (score G) (bats G g)) of
           Inl e \<Rightarrow> Inl e
         | Inr m \<Rightarrow>
             Inr (if m > 9 then s1\<lparr>state := GAME_OVER\<rparr> else s1, [GameUpdate, GameDraw g]))"

text \<open>Lines 106 to 119: the branch of the state GAME_OVER.\<close>

definition game_over_frame ::
  "('g, 'b, 'w) game_class \<Rightarrow> 'w frame_input \<Rightarrow> bool \<Rightarrow> 'g app \<Rightarrow> 'g app \<times> ('g, 'c) effect list"
where
  "game_over_frame G inp space_pressed s =
     (let s1 = (if space_pressed then
                  s\<lparr>state := MENU, num_players := 1, controls := (None, None),
                    game := Game G (world inp) (None, None)\<rparr>
                else s)
      in (s1, [GameOverScreen]))"

subsection \<open>The loop\<close>

text \<open>Lines 52 to 123: one iteration of \<open>while running\<close>.\<close>

definition main_frame ::
  "('g, 'b, 'w) game_class \<Rightarrow> (string \<rightharpoonup> 'c list) \<Rightarrow> 'w frame_input \<Rightarrow> 'g app
     \<Rightarrow> error + ('g app \<times> ('g, 'c) effect list)"
where
  "main_frame G sfx inp s =
     (let r = poll_events (events inp) (running s);
          (space_pressed, space_now) = space_edge (K_SPACE inp) (space_down s);
          s0 = s\<lparr>running := r, space_down := space_now\<rparr>;
          branch = (case state s0 of
                      MENU \<Rightarrow> menu_frame G sfx inp space_pressed s0
                    | PLAY \<Rightarrow> play_frame G inp s0
                    | GAME_OVER \<Rightarrow> Inr (game_over_frame G inp space_pressed s0))
      in case branch of
           Inl e \<Rightarrow> Inl e
         | Inr (s1, fx) \<Rightarrow> Inr (s1, fx @ [Flip, Tick]))"

text \<open>
  Lines 51 to 123: the loop, over the inputs of the frames still to come. It stops when
  \<open>running\<close> is false at the head of an iteration, or when an iteration raises. When the
  supplied inputs run out first, the state reached so far is returned with \<open>running\<close> still
  true. The calls of all iterations are collected in order.
\<close>

fun main_loop ::
  "('g, 'b, 'w) game_class \<Rightarrow> (string \<rightharpoonup> 'c list) \<Rightarrow> 'w frame_input list \<Rightarrow> 'g app
     \<Rightarrow> error + ('g app \<times> ('g, 'c) effect list)"
where
  "main_loop G sfx [] s = Inr (s, [])"
| "main_loop G sfx (inp # inps) s =
     (if running s then
        (case main_frame G sfx inp s of
           Inl e \<Rightarrow> Inl e
         | Inr (s1, fx1) \<Rightarrow>
             (case main_loop G sfx inps s1 of
                Inl e \<Rightarrow> Inl e
              | Inr (s2, fx2) \<Rightarrow> Inr (s2, fx1 @ fx2)))
      else Inr (s, []))"

text \<open>Lines 40 to 50: the variables before the first iteration.\<close>

definition init :: "('g, 'b, 'w) game_class \<Rightarrow> 'w \<Rightarrow> 'g app" where
  "init G w0 =
     \<lparr>state = MENU, num_players = 1, controls = (None, None),
      game = Game G w0 (None, None), space_down = False, running = True\<rparr>"

text \<open>
  How a run ends: \<open>sys.exit()\<close> after the loop ends the process with status 0; an exception
  leaves \<open>main\<close>; and \<open>Looping\<close> says that the loop is still running after the inputs supplied.
\<close>

datatype ('g, 'c) outcome =
  Exited int "('g, 'c) effect list"
  | Raised error
  | Looping "'g app" "('g, 'c) effect list"

text \<open>Lines 125 to 127, reached when the loop has ended.\<close>

definition cleanup :: "error + ('g app \<times> ('g, 'c) effect list) \<Rightarrow> ('g, 'c) outcome" where
  "cleanup r =
     (case r of
        Inl e \<Rightarrow> Raised e
      | Inr (s, fx) \<Rightarrow> if running s then Looping s fx else Exited 0 fx)"

text \<open>Lines 39 to 127: \<open>main\<close> from its first state, on the inputs of the frames.\<close>

definition main ::
  "('g, 'b, 'w) game_class \<Rightarrow> (string \<rightharpoonup> 'c list) \<Rightarrow> 'w \<Rightarrow> 'w frame_input list \<Rightarrow> ('g, 'c) outcome"
where
  "main G sfx w0 inps = cleanup (main_loop G sfx inps (init G w0))"

subsection \<open>Observations on a run\<close>

text \<open>
  The values the local variable \<open>space_pressed\<close> takes in the iterations \<open>main_loop\<close> runs,
  in order. The flag is computed before the branch on the state, so the iteration that
  raises has its flag too.
\<close>

fun space_flags ::
  "('g, 'b, 'w) game_class \<Rightarrow> (string \<rightharpoonup> 'c list) \<Rightarrow> 'w frame_input list \<Rightarrow> 'g app \<Rightarrow> bool list"
where
  "space_flags G sfx [] s = []"
| "space_flags G sfx (inp # inps) s =
     (if running s then
        fst (space_edge (K_SPACE inp) (space_down s)) #
        (case main_frame G sfx inp s of
           Inl e \<Rightarrow> []
         | Inr (s1, fx1) \<Rightarrow> space_flags G sfx inps s1)
      else [])"

text \<open>
  The rising edges of a sequence of key states as the specification words them: a key is
  pressed in this frame and was not pressed in the frame before; \<open>prev\<close> is the state of the
  key before the first frame.
\<close>

fun rising_edges :: "bool \<Rightarrow> bool list \<Rightarrow> bool list" where
  "rising_edges prev [] = []"
| "rising_edges prev (k # ks) = (k \<and> \<not> prev) # rising_edges k ks"

text \<open>The clips an iteration played from \<open>sfx\<close>, in order.\<close>

fun played :: "('g, 'c) effect list \<Rightarrow> 'c list" where
  "played [] = []"
| "played (SfxPlay c # fx) = c # played fx"
| "played (e # fx) = played fx"

text \<open>
  The loader's result has the two cues the menu plays, each with a first clip, as the
  specification says of the asset loader (every cue resolves to one or more clips).
\<close>

definition sfx_ok :: "(string \<rightharpoonup> 'c list) \<Rightarrow> bool" where
  "sfx_ok sfx =
     ((case sfx ''up'' of Some (c # cs) \<Rightarrow> True | _ \<Rightarrow> False) \<and>
      (case sfx ''down'' of Some (c # cs) \<Rightarrow> True | _ \<Rightarrow> False))"

subsection \<open>An instance to run the loop on\<close>

text \<open>
  A game that is only the two scores of its bats, both 0 when it is built; an update gives
  a point to the left bat when \<open>world\<close> is true and to the right bat otherwise.
\<close>

definition tally :: "(int \<times> int, int, bool) game_class" where
  "tally =
     \<lparr>Game = (\<lambda>w c. (0, 0)),
      update = (\<lambda>inp (l, r). if world inp then (l + 1, r) else (l, r + 1)),
      bats = (\<lambda>(l, r). [l, r]),
      score = (\<lambda>b. b)\<rparr>"

definition clips :: "string \<rightharpoonup> string list" where
  "clips = map_of [(''up'', [''up_0'']), (''down'', [''down_0''])]"

text \<open>A frame without events: the keys SPACE, UP and DOWN, and the side that scores.\<close>

definition keys :: "bool \<Rightarrow> bool \<Rightarrow> bool \<Rightarrow> bool \<Rightarrow> bool frame_input" where
  "keys sp up dn w = \<lparr>events = [], K_SPACE = sp, K_UP = up, K_DOWN = dn, world = w\<rparr>"

text \<open>A frame in which the window is closed and no key is down.\<close>

definition close_window :: "bool frame_input" where
  "close_window = \<lparr>events = [OTHER, QUIT], K_SPACE = False, K_UP = False, K_DOWN = False, world = False\<rparr>"

text \<open>The variables in a given state with a given player count, game and SPACE state.\<close>

definition vars :: "State \<Rightarrow> int \<Rightarrow> int \<times> int \<Rightarrow> bool \<Rightarrow> (int \<times> int) app" where
  "vars st n g sd =
     \<lparr>state = st, num_players = n,
      controls = (if st = PLAY then (Some p1_controls, if n = 2 then Some p2_controls else None)
                  else (None, None)),
      game = g, space_down = sd, running = True\<rparr>"

section \<open>Properties of one iteration\<close>

subsection \<open>Polling, the maximum and the three branches\<close>

lemma poll_events_eq: "poll_events evs r = (r \<and> QUIT \<notin> set evs)"
  unfolding poll_events_def by (induction evs arbitrary: r) auto

lemma py_max_Max: "xs \<noteq> [] \<Longrightarrow> py_max xs = Inr (Max (set xs))"
proof (cases xs)
  case Nil
  assume "xs \<noteq> []"
  with Nil show ?thesis by simp
next
  case (Cons x ys)
  have "(\<lambda>y m. if y > m then y else m) = (max :: int \<Rightarrow> int \<Rightarrow> int)"
    by (auto simp: fun_eq_iff max_def)
  moreover have "fold max ys x = Max (set (x # ys))"
    by (simp only: Max.set_eq_fold)
  ultimately show ?thesis using Cons by (simp del: set_simps)
qed

lemma main_frame_play:
  assumes "state s = PLAY"
  shows "main_frame G sfx inp s =
     (case play_frame G inp (s\<lparr>running := poll_events (events inp) (running s), space_down := K_SPACE inp\<rparr>) of
        Inl e \<Rightarrow> Inl e | Inr (s1, fx) \<Rightarrow> Inr (s1, fx @ [Flip, Tick]))"
  using assms by (simp add: main_frame_def space_edge_def Let_def)

lemma main_frame_menu:
  assumes "state s = MENU"
  shows "main_frame G sfx inp s =
     (case menu_frame G sfx inp (K_SPACE inp \<and> \<not> space_down s)
         (s\<lparr>running := poll_events (events inp) (running s), space_down := K_SPACE inp\<rparr>) of
        Inl e \<Rightarrow> Inl e | Inr (s1, fx) \<Rightarrow> Inr (s1, fx @ [Flip, Tick]))"
  using assms by (simp add: main_frame_def space_edge_def Let_def)

lemma main_frame_game_over:
  assumes "state s = GAME_OVER"
  shows "main_frame G sfx inp s =
     (case game_over_frame G inp (K_SPACE inp \<and> \<not> space_down s)
         (s\<lparr>running := poll_events (events inp) (running s), space_down := K_SPACE inp\<rparr>) of
        (s1, fx) \<Rightarrow> Inr (s1, fx @ [Flip, Tick]))"
  using assms by (simp add: main_frame_def space_edge_def Let_def)

text \<open>The selection of the player count, case by case.\<close>

lemma menu_select_up:
  assumes "K_UP inp" "num_players s = 2" "sfx ''up'' = Some (c # cs)"
  shows "menu_select sfx inp s = Inr (s\<lparr>num_players := 1\<rparr>, [SfxPlay c])"
  using assms by (simp add: menu_select_def sfx_play_def)

lemma menu_select_down:
  assumes "K_DOWN inp" "num_players s = 1" "sfx ''down'' = Some (c # cs)"
  shows "menu_select sfx inp s = Inr (s\<lparr>num_players := 2\<rparr>, [SfxPlay c])"
  using assms by (simp add: menu_select_def sfx_play_def)

lemma menu_select_none:
  assumes "\<not> (K_UP inp \<and> num_players s = 2)" "\<not> (K_DOWN inp \<and> num_players s = 1)"
  shows "menu_select sfx inp s = Inr (s, [])"
  using assms by (auto simp add: menu_select_def)

lemma sfx_okD:
  assumes "sfx_ok sfx"
  shows "\<exists>c cs. sfx ''up'' = Some (c # cs)" and "\<exists>c cs. sfx ''down'' = Some (c # cs)"
  using assms by (auto simp: sfx_ok_def split: option.splits list.splits)

text \<open>With both cues loaded the selection returns: the count it leaves and what it played.\<close>

lemma menu_select_ok:
  assumes "sfx_ok sfx"
  shows "\<exists>n fx1. menu_select sfx inp s = Inr (s\<lparr>num_players := n\<rparr>, fx1)
           \<and> (n = num_players s \<or> n = 1 \<or> n = 2)
           \<and> GameUpdate \<notin> set fx1 \<and> (\<forall>g. GameDraw g \<notin> set fx1)
           \<and> Tick \<notin> set fx1"
proof -
  obtain cu csu cd csd where
    u: "sfx ''up'' = Some (cu # csu)" and d: "sfx ''down'' = Some (cd # csd)"
    using sfx_okD [OF assms] by blast
  consider (up) "K_UP inp \<and> num_players s = 2"
    | (down) "\<not> (K_UP inp \<and> num_players s = 2)" "K_DOWN inp \<and> num_players s = 1"
    | (none) "\<not> (K_UP inp \<and> num_players s = 2)" "\<not> (K_DOWN inp \<and> num_players s = 1)"
    by blast
  then show ?thesis
  proof cases
    case up
    then have "menu_select sfx inp s = Inr (s\<lparr>num_players := 1\<rparr>, [SfxPlay cu])"
      using u by (simp add: menu_select_up)
    then show ?thesis by (intro exI [of _ 1] exI [of _ "[SfxPlay cu]"]) simp
  next
    case down
    then have "menu_select sfx inp s = Inr (s\<lparr>num_players := 2\<rparr>, [SfxPlay cd])"
      using d by (simp add: menu_select_down)
    then show ?thesis by (intro exI [of _ 2] exI [of _ "[SfxPlay cd]"]) simp
  next
    case none
    then have "menu_select sfx inp s = Inr (s, [])"
      by (rule menu_select_none)
    then show ?thesis by (intro exI [of _ "num_players s"] exI [of _ "[]"]) simp
  qed
qed

text \<open>What any iteration that returns does to \<open>running\<close>, \<open>space_down\<close> and the clock.\<close>

lemma menu_select_Inr:
  assumes "menu_select sfx inp s = Inr (s1, fx1)"
  shows "s1 = s\<lparr>num_players := num_players s1\<rparr>"
    and "num_players s1 = num_players s \<or> num_players s1 = 1 \<or> num_players s1 = 2"
    and "Tick \<notin> set fx1"
  using assms
  by (auto simp: menu_select_def sfx_play_def
      split: if_splits option.splits list.splits sum.splits)

lemma main_frame_Inr:
  assumes "main_frame G sfx inp s = Inr (s', fx)"
  shows "running s' = (running s \<and> QUIT \<notin> set (events inp))"
    and "space_down s' = K_SPACE inp"
    and "count_list fx Tick = 1"
    and "num_players s' = num_players s \<or> num_players s' = 1 \<or> num_players s' = 2"
proof -
  let ?s0 = "s\<lparr>running := poll_events (events inp) (running s), space_down := K_SPACE inp\<rparr>"
  have "running s' = (running s \<and> QUIT \<notin> set (events inp)) \<and> space_down s' = K_SPACE inp
      \<and> count_list fx Tick = 1
      \<and> (num_players s' = num_players s \<or> num_players s' = 1 \<or> num_players s' = 2)"
  proof (cases "state s")
    case MENU
    from assms obtain s1 fx1 where
      ms: "menu_select sfx inp ?s0 = Inr (s1, fx1)"
      and r: "(s', fx) = (case menu_start G inp (K_SPACE inp \<and> \<not> space_down s) s1 of
                 (s2, fx2) \<Rightarrow> (s2, (fx1 @ fx2 @ [MenuScreen (num_players s2)]) @ [Flip, Tick]))"
      by (auto simp: main_frame_menu [OF MENU] menu_frame_def Let_def
          split: sum.splits prod.splits)
    define n where "n = num_players s1"
    from menu_select_Inr [OF ms] have
      s1: "s1 = ?s0\<lparr>num_players := n\<rparr>" and n: "n = num_players s \<or> n = 1 \<or> n = 2"
      and t: "Tick \<notin> set fx1"
      by (simp_all add: n_def)
    show ?thesis using r n t unfolding s1
      by (auto simp: menu_start_def Let_def poll_events_eq split: if_splits)
  next
    case PLAY
    show ?thesis using assms
      by (auto simp: main_frame_play [OF PLAY] play_frame_def Let_def poll_events_eq
          split: sum.splits if_splits)
  next
    case GAME_OVER
    show ?thesis using assms
      by (auto simp: main_frame_game_over [OF GAME_OVER] game_over_frame_def Let_def poll_events_eq
          split: if_splits)
  qed
  then show "running s' = (running s \<and> QUIT \<notin> set (events inp))"
    and "space_down s' = K_SPACE inp"
    and "count_list fx Tick = 1"
    and "num_players s' = num_players s \<or> num_players s' = 1 \<or> num_players s' = 2"
    by blast+
qed

text \<open>With the cues loaded and a bat in every game, an iteration returns.\<close>

lemma main_frame_total:
  assumes "sfx_ok sfx" and "\<forall>g. bats G g \<noteq> []"
  shows "\<exists>s' fx. main_frame G sfx inp s = Inr (s', fx)"
proof (cases "state s")
  case MENU
  let ?s0 = "s\<lparr>running := poll_events (events inp) (running s), space_down := K_SPACE inp\<rparr>"
  from menu_select_ok [OF assms(1), of inp ?s0] obtain n fx1 where
    "menu_select sfx inp ?s0 = Inr (?s0\<lparr>num_players := n\<rparr>, fx1)" by blast
  then show ?thesis
    by (simp add: main_frame_menu [OF MENU] menu_frame_def Let_def split: prod.splits)
next
  case PLAY
  have "py_max (map (score G) (bats G (update G inp (game s)))) =
      Inr (Max (set (map (score G) (bats G (update G inp (game s))))))"
    using assms(2) by (simp add: py_max_Max)
  then show ?thesis
    by (simp add: main_frame_play [OF PLAY] play_frame_def Let_def)
next
  case GAME_OVER
  then show ?thesis
    by (simp add: main_frame_game_over game_over_frame_def Let_def)
qed

lemma played_append: "played (xs @ ys) = played xs @ played ys"
  by (induction xs rule: played.induct) simp_all

text \<open>The branch of the menu once the selection has returned.\<close>

lemma main_frame_menu_result:
  assumes "state s = MENU"
    and "menu_select sfx inp
           (s\<lparr>running := poll_events (events inp) (running s), space_down := K_SPACE inp\<rparr>)
         = Inr (s1, fx1)"
  shows "main_frame G sfx inp s =
     Inr (if K_SPACE inp \<and> \<not> space_down s
          then s1\<lparr>state := PLAY,
                  controls := (Some p1_controls,
                               if num_players s1 = 2 then Some p2_controls else None),
                  game := Game G (world inp)
                            (Some p1_controls,
                             if num_players s1 = 2 then Some p2_controls else None)\<rparr>
          else s1\<lparr>game := update G inp (game s1)\<rparr>,
          fx1 @ (if K_SPACE inp \<and> \<not> space_down s then [] else [GameUpdate])
            @ [MenuScreen (num_players s1), Flip, Tick])"
  using assms by (simp add: main_frame_menu menu_frame_def menu_start_def Let_def)

lemma main_frame_game_over_result:
  assumes "state s = GAME_OVER"
  shows "main_frame G sfx inp s =
     Inr (if K_SPACE inp \<and> \<not> space_down s
          then s\<lparr>running := poll_events (events inp) (running s), space_down := K_SPACE inp,
                 state := MENU, num_players := 1, controls := (None, None),
                 game := Game G (world inp) (None, None)\<rparr>
          else s\<lparr>running := poll_events (events inp) (running s), space_down := K_SPACE inp\<rparr>,
          [GameOverScreen, Flip, Tick])"
  using assms by (simp add: main_frame_game_over game_over_frame_def Let_def)

subsection \<open>The state PLAY\<close>

text \<open>
  Claim C1. In the state PLAY an iteration calls \<open>game.update()\<close> once and draws the updated
  game; the scores compared with 9 are those of the updated game, and the state after the
  iteration is GAME_OVER exactly when their maximum is greater than 9, and PLAY otherwise.
  For a game with two bats the maximum is the larger of the two scores. The iteration
  returns whenever the updated game has a bat (\<open>max\<close> of no scores raises).
\<close>

theorem play_to_game_over:
  assumes "state s = PLAY" and "bats G (update G inp (game s)) \<noteq> []"
  shows "\<exists>s'. main_frame G sfx inp s =
            Inr (s', [GameUpdate, GameDraw (update G inp (game s)), Flip, Tick])
          \<and> game s' = update G inp (game s)
          \<and> state s' = (if Max (set (map (score G) (bats G (game s')))) > 9 then GAME_OVER else PLAY)
          \<and> (\<forall>l r. bats G (game s') = [l, r] \<longrightarrow>
                (state s' = GAME_OVER) = (max (score G l) (score G r) > 9))"
proof -
  define g where "g = update G inp (game s)"
  define m where "m = Max (set (map (score G) (bats G g)))"
  define s0 where
    "s0 = s\<lparr>running := poll_events (events inp) (running s), space_down := K_SPACE inp, game := g\<rparr>"
  define s' where "s' = (if m > 9 then s0\<lparr>state := GAME_OVER\<rparr> else s0)"
  have pm: "py_max (map (score G) (bats G g)) = Inr m"
    using assms(2) by (simp add: py_max_Max g_def m_def)
  have fr: "main_frame G sfx inp s = Inr (s', [GameUpdate, GameDraw g, Flip, Tick])"
    using assms(1) pm by (simp add: main_frame_play play_frame_def Let_def g_def s'_def s0_def)
  have gm: "game s' = g" by (simp add: s'_def s0_def)
  have st: "state s' = (if m > 9 then GAME_OVER else PLAY)"
    using assms(1) by (simp add: s'_def s0_def)
  have two: "(state s' = GAME_OVER) = (max (score G l) (score G r) > 9)"
    if "bats G g = [l, r]" for l r
    using that st by (simp add: m_def)
  show ?thesis
    using fr gm st two unfolding g_def [symmetric] m_def by (intro exI[of _ s']) simp
qed

theorem play_to_game_over_witness:
  "state (vars PLAY 1 (9, 3) True) = PLAY
   \<and> bats tally (update tally (keys True False False True) (game (vars PLAY 1 (9, 3) True))) \<noteq> []
   \<and> (\<exists>s'. main_frame tally clips (keys True False False True) (vars PLAY 1 (9, 3) True) =
            Inr (s', [GameUpdate, GameDraw (10, 3), Flip, Tick])
          \<and> game s' = (10, 3) \<and> state s' = GAME_OVER)
   \<and> (\<exists>s'. main_frame tally clips (keys True False False False) (vars PLAY 1 (8, 8) True) =
            Inr (s', [GameUpdate, GameDraw (8, 9), Flip, Tick])
          \<and> game s' = (8, 9) \<and> state s' = PLAY)"
proof -
  have a: "state (vars PLAY 1 (9, 3) True) = PLAY" "state (vars PLAY 1 (8, 8) True) = PLAY"
    by (simp_all add: vars_def)
  have b: "bats tally (update tally (keys True False False True) (game (vars PLAY 1 (9, 3) True))) \<noteq> []"
    "bats tally (update tally (keys True False False False) (game (vars PLAY 1 (8, 8) True))) \<noteq> []"
    by (simp_all add: vars_def tally_def keys_def)
  have u: "update tally (keys True False False True) (game (vars PLAY 1 (9, 3) True)) = (10, 3)"
    "update tally (keys True False False False) (game (vars PLAY 1 (8, 8) True)) = (8, 9)"
    by (simp_all add: vars_def tally_def keys_def)
  have sc: "score tally = (\<lambda>b. b)" "bats tally (10, 3) = [10, 3]" "bats tally (8, 9) = [8, 9]"
    by (simp_all add: tally_def)
  from play_to_game_over [OF a(1) b(1), of clips] play_to_game_over [OF a(2) b(2), of clips]
  show ?thesis using a(1) b(1) unfolding u by (auto simp: sc)
qed

subsection \<open>The state MENU\<close>

text \<open>
  Claim C5. In the state MENU, whatever SPACE does in the frame: with UP down and a count
  of 2 the count becomes 1 and the first clip of the cue "up" is the one clip played; with
  DOWN down and a count of 1 (the first case is then excluded) the count becomes 2 and the
  first clip of the cue "down" is the one clip played; in every other case the count is
  unchanged and the iteration plays no clip.
\<close>

theorem menu_player_count:
  assumes "state s = MENU"
  shows "(K_UP inp \<and> num_players s = 2 \<longrightarrow>
            (\<forall>c cs. sfx ''up'' = Some (c # cs) \<longrightarrow>
               (\<exists>s' fx. main_frame G sfx inp s = Inr (s', fx)
                  \<and> num_players s' = 1 \<and> played fx = [c])))
       \<and> (K_DOWN inp \<and> num_players s = 1 \<longrightarrow>
            (\<forall>c cs. sfx ''down'' = Some (c # cs) \<longrightarrow>
               (\<exists>s' fx. main_frame G sfx inp s = Inr (s', fx)
                  \<and> num_players s' = 2 \<and> played fx = [c])))
       \<and> (\<not> (K_UP inp \<and> num_players s = 2) \<and> \<not> (K_DOWN inp \<and> num_players s = 1) \<longrightarrow>
            (\<exists>s' fx. main_frame G sfx inp s = Inr (s', fx)
               \<and> num_players s' = num_players s \<and> played fx = []))"
proof (intro conjI impI allI)
  let ?s0 = "s\<lparr>running := poll_events (events inp) (running s), space_down := K_SPACE inp\<rparr>"
  {
    fix c cs
    assume k: "K_UP inp \<and> num_players s = 2" and c: "sfx ''up'' = Some (c # cs)"
    have "menu_select sfx inp ?s0 = Inr (?s0\<lparr>num_players := 1\<rparr>, [SfxPlay c])"
      using k c by (simp add: menu_select_up)
    from main_frame_menu_result [OF assms this, of G]
    show "\<exists>s' fx. main_frame G sfx inp s = Inr (s', fx) \<and> num_players s' = 1 \<and> played fx = [c]"
      by (simp add: played_append)
  next
    fix c cs
    assume k: "K_DOWN inp \<and> num_players s = 1" and c: "sfx ''down'' = Some (c # cs)"
    have "menu_select sfx inp ?s0 = Inr (?s0\<lparr>num_players := 2\<rparr>, [SfxPlay c])"
      using k c by (simp add: menu_select_down)
    from main_frame_menu_result [OF assms this, of G]
    show "\<exists>s' fx. main_frame G sfx inp s = Inr (s', fx) \<and> num_players s' = 2 \<and> played fx = [c]"
      by (simp add: played_append)
  next
    assume k: "\<not> (K_UP inp \<and> num_players s = 2) \<and> \<not> (K_DOWN inp \<and> num_players s = 1)"
    have "menu_select sfx inp ?s0 = Inr (?s0, [])"
      using k by (intro menu_select_none) simp_all
    from main_frame_menu_result [OF assms this, of G]
    show "\<exists>s' fx. main_frame G sfx inp s = Inr (s', fx)
        \<and> num_players s' = num_players s \<and> played fx = []"
      by (simp add: played_append)
  }
qed

lemma clips_simps [simp]:
  "clips ''up'' = Some [''up_0'']" "clips ''down'' = Some [''down_0'']"
  by (simp_all add: clips_def)

lemma vars_simps [simp]:
  "state (vars st n g sd) = st" "num_players (vars st n g sd) = n"
  "game (vars st n g sd) = g" "space_down (vars st n g sd) = sd"
  "running (vars st n g sd)"
  by (simp_all add: vars_def)

lemma keys_simps [simp]:
  "K_SPACE (keys sp up dn w) = sp" "K_UP (keys sp up dn w) = up"
  "K_DOWN (keys sp up dn w) = dn" "world (keys sp up dn w) = w"
  "events (keys sp up dn w) = []"
  by (simp_all add: keys_def)

theorem menu_player_count_witness:
  "state (vars MENU 2 (0, 0) False) = MENU
   \<and> K_UP (keys False True True True) \<and> num_players (vars MENU 2 (0, 0) False) = 2
   \<and> clips ''up'' = Some [''up_0'']
   \<and> (\<exists>s' fx. main_frame tally clips (keys False True True True) (vars MENU 2 (0, 0) False)
                 = Inr (s', fx) \<and> num_players s' = 1 \<and> played fx = [''up_0''])
   \<and> K_DOWN (keys True True True True) \<and> num_players (vars MENU 1 (0, 0) False) = 1
   \<and> clips ''down'' = Some [''down_0'']
   \<and> (\<exists>s' fx. main_frame tally clips (keys True True True True) (vars MENU 1 (0, 0) False)
                 = Inr (s', fx) \<and> num_players s' = 2 \<and> played fx = [''down_0''])
   \<and> \<not> K_DOWN (keys False True False True)
   \<and> (\<exists>s' fx. main_frame tally clips (keys False True False True) (vars MENU 1 (0, 0) False)
                 = Inr (s', fx) \<and> num_players s' = 1 \<and> played fx = [])"
  using menu_player_count [of "vars MENU 2 (0, 0) False" "keys False True True True" clips tally]
    menu_player_count [of "vars MENU 1 (0, 0) False" "keys True True True True" clips tally]
    menu_player_count [of "vars MENU 1 (0, 0) False" "keys False True False True" clips tally]
  by simp

text \<open>
  Claim C3. In the state MENU, with both menu cues loaded, the iteration returns, and the
  state after it is PLAY exactly when SPACE is down in this frame and was not down in the
  frame before; otherwise it is still MENU, so a SPACE that is held starts nothing. After
  the iteration \<open>space_down\<close> is the SPACE of this frame. When the state becomes PLAY, the
  control pair is \<open>p1_controls\<close> with \<open>p2_controls\<close> exactly when the player count (after
  the selection of this same frame) is 2 and with \<open>None\<close> otherwise, and the game is the
  one the constructor builds from that pair.
\<close>

theorem menu_to_play:
  assumes "state s = MENU" and "sfx_ok sfx"
  shows "\<exists>s' fx. main_frame G sfx inp s = Inr (s', fx)
           \<and> (state s' = PLAY) = (K_SPACE inp \<and> \<not> space_down s)
           \<and> (state s' = PLAY \<or> state s' = MENU)
           \<and> space_down s' = K_SPACE inp
           \<and> (state s' = PLAY \<longrightarrow>
                fst (controls s') = Some p1_controls
              \<and> (snd (controls s') = Some p2_controls) = (num_players s' = 2)
              \<and> (snd (controls s') = None) = (num_players s' \<noteq> 2)
              \<and> game s' = Game G (world inp) (controls s'))"
proof -
  let ?s0 = "s\<lparr>running := poll_events (events inp) (running s), space_down := K_SPACE inp\<rparr>"
  from menu_select_ok [OF assms(2), of inp ?s0] obtain n fx1 where
    "menu_select sfx inp ?s0 = Inr (?s0\<lparr>num_players := n\<rparr>, fx1)" by blast
  from main_frame_menu_result [OF assms(1) this, of G]
  show ?thesis using assms(1) by auto
qed

theorem menu_to_play_witness:
  "state (vars MENU 1 (4, 2) False) = MENU \<and> sfx_ok clips
   \<and> (\<exists>s' fx. main_frame tally clips (keys True False True False) (vars MENU 1 (4, 2) False)
                 = Inr (s', fx)
        \<and> state s' = PLAY \<and> controls s' = (Some p1_controls, Some p2_controls)
        \<and> num_players s' = 2 \<and> game s' = (0, 0))
   \<and> state (vars MENU 1 (4, 2) True) = MENU
   \<and> (\<exists>s' fx. main_frame tally clips (keys True False False False) (vars MENU 1 (4, 2) True)
                 = Inr (s', fx) \<and> state s' = MENU)"
proof -
  have ok: "sfx_ok clips" by (simp add: sfx_ok_def)
  have m: "state (vars MENU 1 (4, 2) False) = MENU" "state (vars MENU 1 (4, 2) True) = MENU"
    by simp_all
  have d: "menu_select clips (keys True False True False)
             ((vars MENU 1 (4, 2) False)\<lparr>running := True, space_down := True\<rparr>)
           = Inr ((vars MENU 1 (4, 2) False)\<lparr>running := True, space_down := True, num_players := 2\<rparr>,
                  [SfxPlay ''down_0''])"
    by (simp add: menu_select_down)
  from menu_to_play [OF m(1) ok, of tally "keys True False True False"]
    menu_to_play [OF m(2) ok, of tally "keys True False False False"]
  show ?thesis
    using ok main_frame_menu_result [OF m(1), of clips "keys True False True False" _ _ tally]
    by (auto simp: poll_events_eq d tally_def)
qed

text \<open>
  Claim C6. In the state MENU, with both menu cues loaded, an iteration without a rising
  edge of SPACE stays in MENU, makes exactly one call of \<open>game.update()\<close>, and the game after
  the iteration is the game before it, updated once.
\<close>

theorem menu_background_update:
  assumes "state s = MENU" and "sfx_ok sfx" and "\<not> (K_SPACE inp \<and> \<not> space_down s)"
  shows "\<exists>s' fx. main_frame G sfx inp s = Inr (s', fx)
           \<and> state s' = MENU
           \<and> game s' = update G inp (game s)
           \<and> count_list fx GameUpdate = 1"
proof -
  let ?s0 = "s\<lparr>running := poll_events (events inp) (running s), space_down := K_SPACE inp\<rparr>"
  from menu_select_ok [OF assms(2), of inp ?s0] obtain n fx1 where
    ms: "menu_select sfx inp ?s0 = Inr (?s0\<lparr>num_players := n\<rparr>, fx1)"
    and nu: "GameUpdate \<notin> set fx1"
    by blast
  have "count_list fx1 GameUpdate = 0"
    using nu by (simp add: count_list_0_iff)
  with main_frame_menu_result [OF assms(1) ms, of G] assms(1,3)
  show ?thesis by auto
qed

theorem menu_background_update_witness:
  "state (vars MENU 2 (4, 2) True) = MENU \<and> sfx_ok clips
   \<and> \<not> (K_SPACE (keys True True False True) \<and> \<not> space_down (vars MENU 2 (4, 2) True))
   \<and> (\<exists>s' fx. main_frame tally clips (keys True True False True) (vars MENU 2 (4, 2) True)
                 = Inr (s', fx)
        \<and> state s' = MENU \<and> game s' = (5, 2) \<and> count_list fx GameUpdate = 1)"
proof -
  have ok: "sfx_ok clips" by (simp add: sfx_ok_def)
  have m: "state (vars MENU 2 (4, 2) True) = MENU" by simp
  have e: "\<not> (K_SPACE (keys True True False True) \<and> \<not> space_down (vars MENU 2 (4, 2) True))"
    by simp
  have u: "update tally (keys True True False True) (game (vars MENU 2 (4, 2) True)) = (5, 2)"
    by (simp add: tally_def)
  from menu_background_update [OF m ok e, of tally]
  show ?thesis using ok unfolding u by simp
qed

subsection \<open>The state GAME_OVER\<close>

text \<open>
  Claim C4. In the state GAME_OVER an iteration always returns. The state after it is MENU
  exactly when SPACE is down in this frame and was not down in the frame before; then the
  player count is 1, the control pair is \<open>(None, None)\<close> and the game is the one the
  constructor builds from that pair, so that both scores are 0 when a new \<open>Game\<close> has two
  bats with score 0 (the class is not part of main.py; the specification says so of every
  new \<open>Game\<close>). Without the rising edge the state, the player count, the control pair and the
  game are as before.
\<close>

theorem game_over_to_menu:
  assumes "state s = GAME_OVER"
  shows "\<exists>s' fx. main_frame G sfx inp s = Inr (s', fx)
           \<and> (state s' = MENU) = (K_SPACE inp \<and> \<not> space_down s)
           \<and> (K_SPACE inp \<and> \<not> space_down s \<longrightarrow>
                num_players s' = 1 \<and> controls s' = (None, None)
              \<and> game s' = Game G (world inp) (None, None)
              \<and> ((\<forall>w c. map (score G) (bats G (Game G w c)) = [0, 0]) \<longrightarrow>
                    map (score G) (bats G (game s')) = [0, 0]))
           \<and> (\<not> (K_SPACE inp \<and> \<not> space_down s) \<longrightarrow>
                state s' = GAME_OVER \<and> num_players s' = num_players s
              \<and> controls s' = controls s \<and> game s' = game s)"
  using assms by (simp add: main_frame_game_over_result)

theorem game_over_to_menu_witness:
  "state (vars GAME_OVER 2 (10, 7) False) = GAME_OVER
   \<and> K_SPACE (keys True False False True) \<and> \<not> space_down (vars GAME_OVER 2 (10, 7) False)
   \<and> map (score tally) (bats tally (Game tally False (None, None))) = [0, 0]
   \<and> (\<exists>s' fx. main_frame tally clips (keys True False False True) (vars GAME_OVER 2 (10, 7) False)
                 = Inr (s', fx)
        \<and> state s' = MENU \<and> num_players s' = 1 \<and> controls s' = (None, None)
        \<and> map (score tally) (bats tally (game s')) = [0, 0])
   \<and> state (vars GAME_OVER 2 (10, 7) True) = GAME_OVER
   \<and> \<not> (K_SPACE (keys True False False True) \<and> \<not> space_down (vars GAME_OVER 2 (10, 7) True))
   \<and> (\<exists>s' fx. main_frame tally clips (keys True False False True) (vars GAME_OVER 2 (10, 7) True)
                 = Inr (s', fx)
        \<and> state s' = GAME_OVER \<and> num_players s' = 2 \<and> game s' = (10, 7))"
proof -
  have z: "\<forall>w c. map (score tally) (bats tally (Game tally w c)) = [0, 0]"
    by (simp add: tally_def)
  have m: "state (vars GAME_OVER 2 (10, 7) False) = GAME_OVER"
    "state (vars GAME_OVER 2 (10, 7) True) = GAME_OVER"
    by simp_all
  from game_over_to_menu [OF m(1), of tally clips "keys True False False True"]
    game_over_to_menu [OF m(2), of tally clips "keys True False False True"]
  show ?thesis using z by auto
qed

section \<open>Properties of the loop\<close>

subsection \<open>Runs of the loop\<close>

lemma main_frame_play_result:
  assumes "state s = PLAY" and "bats G (update G inp (game s)) \<noteq> []"
  shows "main_frame G sfx inp s =
     Inr (if Max (set (map (score G) (bats G (update G inp (game s))))) > 9
          then s\<lparr>running := poll_events (events inp) (running s), space_down := K_SPACE inp,
                 game := update G inp (game s), state := GAME_OVER\<rparr>
          else s\<lparr>running := poll_events (events inp) (running s), space_down := K_SPACE inp,
                 game := update G inp (game s)\<rparr>,
          [GameUpdate, GameDraw (update G inp (game s)), Flip, Tick])"
proof -
  have "py_max (map (score G) (bats G (update G inp (game s)))) =
      Inr (Max (set (map (score G) (bats G (update G inp (game s))))))"
    using assms(2) by (simp add: py_max_Max)
  then show ?thesis
    using assms(1) by (simp add: main_frame_play play_frame_def Let_def)
qed

lemma main_loop_stopped: "\<not> running s \<Longrightarrow> main_loop G sfx inps s = Inr (s, [])"
  by (cases inps) simp_all

lemma main_loop_Inr:
  assumes "main_loop G sfx inps s = Inr (s', fx)"
  shows "running s' = (running s \<and> (\<forall>i\<in>set inps. QUIT \<notin> set (events i)))"
    and "num_players s \<in> {1, 2} \<Longrightarrow> num_players s' \<in> {1, 2}"
proof -
  have "running s' = (running s \<and> (\<forall>i\<in>set inps. QUIT \<notin> set (events i)))
      \<and> (num_players s \<in> {1, 2} \<longrightarrow> num_players s' \<in> {1, 2})"
    using assms
  proof (induction inps arbitrary: s s' fx)
    case Nil
    then show ?case by simp
  next
    case (Cons inp inps)
    show ?case
    proof (cases "running s")
      case False
      with Cons.prems show ?thesis by simp
    next
      case True
      with Cons.prems obtain s1 fx1 fx2 where
        f: "main_frame G sfx inp s = Inr (s1, fx1)"
        and l: "main_loop G sfx inps s1 = Inr (s', fx2)"
        by (auto split: sum.splits)
      from main_frame_Inr [OF f] Cons.IH [OF l] True
      show ?thesis by auto
    qed
  qed
  then show "running s' = (running s \<and> (\<forall>i\<in>set inps. QUIT \<notin> set (events i)))"
    and "num_players s \<in> {1, 2} \<Longrightarrow> num_players s' \<in> {1, 2}"
    by blast+
qed

lemma main_loop_total:
  assumes "sfx_ok sfx" and "\<forall>g. bats G g \<noteq> []"
  shows "\<exists>s' fx. main_loop G sfx inps s = Inr (s', fx)"
proof (induction inps arbitrary: s)
  case Nil
  show ?case by simp
next
  case (Cons inp inps)
  from main_frame_total [OF assms, of inp s] obtain s1 fx1 where
    f: "main_frame G sfx inp s = Inr (s1, fx1)" by blast
  from Cons.IH [of s1] obtain s2 fx2 where
    l: "main_loop G sfx inps s1 = Inr (s2, fx2)" by blast
  show ?case by (simp add: f l)
qed

text \<open>An iteration that polls a QUIT is the last one: the frames after it are not read.\<close>

lemma main_loop_quit_cut:
  assumes "QUIT \<in> set (events q)"
  shows "main_loop G sfx (pre @ q # post) s = main_loop G sfx (pre @ [q]) s"
proof (induction pre arbitrary: s)
  case Nil
  show ?case
  proof (cases "main_frame G sfx q s")
    case (Inl e)
    then show ?thesis by simp
  next
    case (Inr p)
    obtain s1 fx1 where p: "p = (s1, fx1)" by (cases p)
    from main_frame_Inr(1) [OF Inr [unfolded p]] assms have "\<not> running s1" by simp
    then have "main_loop G sfx post s1 = Inr (s1, [])" by (rule main_loop_stopped)
    with Inr p show ?thesis by simp
  qed
next
  case (Cons inp pre)
  then show ?case by (simp split: sum.splits prod.splits)
qed

lemma main_loop_ticks:
  assumes "running s" and "\<forall>i\<in>set pre. QUIT \<notin> set (events i)"
    and "main_loop G sfx (pre @ [q]) s = Inr (s', fx)"
  shows "count_list fx Tick = length pre + 1"
  using assms
proof (induction pre arbitrary: s s' fx)
  case Nil
  then obtain fx1 where f: "main_frame G sfx q s = Inr (s', fx1)" and "fx = fx1"
    by (auto split: sum.splits)
  with main_frame_Inr(3) [OF f] show ?case by simp
next
  case (Cons inp pre)
  from Cons.prems obtain s1 fx1 fx2 where
    f: "main_frame G sfx inp s = Inr (s1, fx1)"
    and l: "main_loop G sfx (pre @ [q]) s1 = Inr (s', fx2)"
    and fx: "fx = fx1 @ fx2"
    by (auto split: sum.splits)
  from main_frame_Inr(1) [OF f] Cons.prems(1,2) have r: "running s1" by simp
  from Cons.IH [OF r _ l] Cons.prems(2) have "count_list fx2 Tick = length pre + 1" by simp
  with main_frame_Inr(3) [OF f] fx show ?case by simp
qed

text \<open>
  Claim C7. Let the window be closed in the frame \<open>q\<close>, after the frames \<open>pre\<close> without a close
  event, with the loop running in any state \<open>s\<close>. The events are polled once at the head of
  each iteration, and the iteration that polls the QUIT is the last: the frames \<open>post\<close> are
  never read, and the run cannot be left looping. When nothing raises (both menu cues are
  loaded and every game has a bat) the loop has run one iteration for each frame of \<open>pre\<close>
  and one for \<open>q\<close>, and the process ends with status 0; so does \<open>main\<close> from its first state.
\<close>

theorem window_close_ends_loop:
  assumes "QUIT \<in> set (events q)" and "\<forall>i\<in>set pre. QUIT \<notin> set (events i)" and "running s"
  shows "main_loop G sfx (pre @ q # post) s = main_loop G sfx (pre @ [q]) s
       \<and> (\<forall>t fx. cleanup (main_loop G sfx (pre @ q # post) s) \<noteq> Looping t fx)
       \<and> (sfx_ok sfx \<and> (\<forall>g. bats G g \<noteq> []) \<longrightarrow>
            (\<exists>fx. cleanup (main_loop G sfx (pre @ q # post) s) = Exited 0 fx
               \<and> count_list fx Tick = length pre + 1))
       \<and> (sfx_ok sfx \<and> (\<forall>g. bats G g \<noteq> []) \<longrightarrow>
            (\<exists>fx. main G sfx w0 (pre @ q # post) = Exited 0 fx
               \<and> count_list fx Tick = length pre + 1))"
proof -
  have cut: "main_loop G sfx (pre @ q # post) t = main_loop G sfx (pre @ [q]) t" for t
    using assms(1) by (rule main_loop_quit_cut)
  have stop: "\<not> running t'" if "main_loop G sfx (pre @ [q]) t = Inr (t', fx)" for t t' fx
    using main_loop_Inr(1) [OF that] assms(1) by simp
  have never: "cleanup (main_loop G sfx (pre @ q # post) s) \<noteq> Looping t fx" for t fx
  proof (cases "main_loop G sfx (pre @ [q]) s")
    case (Inl e)
    then show ?thesis by (simp add: cut cleanup_def)
  next
    case (Inr p)
    obtain s1 fx1 where p: "p = (s1, fx1)" by (cases p)
    from stop [OF Inr [unfolded p]] Inr p show ?thesis by (simp add: cut cleanup_def)
  qed
  have exits: "\<exists>fx. cleanup (main_loop G sfx (pre @ q # post) t) = Exited 0 fx
      \<and> count_list fx Tick = length pre + 1"
    if ok: "sfx_ok sfx \<and> (\<forall>g. bats G g \<noteq> [])" and r: "running t" for t
  proof -
    from main_loop_total [of sfx G "pre @ [q]" t] ok obtain t' fx where
      l: "main_loop G sfx (pre @ [q]) t = Inr (t', fx)" by blast
    from main_loop_ticks [OF r assms(2) l] stop [OF l] l
    show ?thesis by (simp add: cut cleanup_def)
  qed
  have "running (init G w0)" by (simp add: init_def)
  with exits [of s] exits [of "init G w0"] assms(3) cut never
  show ?thesis unfolding main_def by blast
qed

text \<open>The definitions to unfold when an iteration is run on the instance.\<close>

lemmas run_defs =
  main_frame_def space_edge_def poll_events_def menu_frame_def menu_select_def menu_start_def
  sfx_play_def play_frame_def game_over_frame_def Let_def vars_def keys_def close_window_def
  tally_def init_def

lemma tally_bats: "\<forall>g. bats tally g \<noteq> []"
  by (simp add: tally_def split: prod.splits)

lemma clips_ok: "sfx_ok clips"
  by (simp add: sfx_ok_def)

lemma close_window_simps [simp]:
  "events close_window = [OTHER, QUIT]" "K_SPACE close_window = False"
  "K_UP close_window = False" "K_DOWN close_window = False"
  by (simp_all add: close_window_def)

theorem window_close_ends_loop_witness:
  "QUIT \<in> set (events close_window)
   \<and> QUIT \<notin> set (events (keys True False False True))
   \<and> running (vars GAME_OVER 1 (10, 4) False)
   \<and> sfx_ok clips \<and> (\<forall>g. bats tally g \<noteq> [])
   \<and> (\<exists>fx. cleanup (main_loop tally clips
                ([keys True False False True] @ close_window # [keys False False True False])
                (vars GAME_OVER 1 (10, 4) False)) = Exited 0 fx
          \<and> count_list fx Tick = 2)
   \<and> (\<exists>fx. main tally clips True
                ([keys True False False True] @ close_window # [keys False False True False])
              = Exited 0 fx
          \<and> count_list fx Tick = 2)"
proof -
  have q: "QUIT \<in> set (events close_window)" by simp
  have n: "QUIT \<notin> set (events (keys True False False True))" by simp
  then have p: "\<forall>i\<in>set [keys True False False True]. QUIT \<notin> set (events i)" by simp
  have r: "running (vars GAME_OVER 1 (10, 4) False)" by simp
  have len: "length [keys True False False True] + 1 = 2" by simp
  note ends = window_close_ends_loop [OF q p r, of tally clips "[keys False False True False]" True]
  from ends clips_ok tally_bats have
    "\<exists>fx. cleanup (main_loop tally clips
                ([keys True False False True] @ close_window # [keys False False True False])
                (vars GAME_OVER 1 (10, 4) False)) = Exited 0 fx
          \<and> count_list fx Tick = length [keys True False False True] + 1"
    and "\<exists>fx. main tally clips True
                ([keys True False False True] @ close_window # [keys False False True False])
              = Exited 0 fx
          \<and> count_list fx Tick = length [keys True False False True] + 1"
    by blast+
  then show ?thesis
    unfolding len using q n r clips_ok tally_bats by blast
qed

subsection \<open>The player count\<close>

text \<open>
  Claim C8. The player count is 1 before the first iteration; an iteration that returns
  leaves it as it was or sets it to 1 or to 2, in whatever state it ran; and after any number
  of iterations of \<open>main\<close> it is 1 or 2.
\<close>

theorem num_players_1_or_2:
  "num_players (init G w0) = 1
   \<and> (main_frame G sfx inp s = Inr (s', fx) \<longrightarrow>
        num_players s' = num_players s \<or> num_players s' = 1 \<or> num_players s' = 2)
   \<and> (main_loop G sfx inps (init G w0) = Inr (t, fx') \<longrightarrow> num_players t \<in> {1, 2})"
proof (intro conjI impI)
  show "num_players (init G w0) = 1" by (simp add: init_def)
next
  assume "main_frame G sfx inp s = Inr (s', fx)"
  then show "num_players s' = num_players s \<or> num_players s' = 1 \<or> num_players s' = 2"
    by (rule main_frame_Inr(4))
next
  assume l: "main_loop G sfx inps (init G w0) = Inr (t, fx')"
  have "num_players (init G w0) \<in> {1, 2}" by (simp add: init_def)
  then show "num_players t \<in> {1, 2}" by (rule main_loop_Inr(2) [OF l])
qed

theorem num_players_1_or_2_witness:
  "main_frame tally clips (keys False False True True) (vars MENU 1 (0, 0) False) =
     Inr ((vars MENU 1 (0, 0) False)\<lparr>num_players := 2, game := (1, 0)\<rparr>,
          [SfxPlay ''down_0'', GameUpdate, MenuScreen 2, Flip, Tick])
   \<and> main_loop tally clips [keys False False True True] (init tally True) =
     Inr ((vars MENU 1 (0, 0) False)\<lparr>num_players := 2, game := (1, 0)\<rparr>,
          [SfxPlay ''down_0'', GameUpdate, MenuScreen 2, Flip, Tick])
   \<and> num_players ((vars MENU 1 (0, 0) False)\<lparr>num_players := 2, game := (1, 0)\<rparr>) \<in> {1, 2}"
proof -
  have f: "main_frame tally clips (keys False False True True) (vars MENU 1 (0, 0) False) =
     Inr ((vars MENU 1 (0, 0) False)\<lparr>num_players := 2, game := (1, 0)\<rparr>,
          [SfxPlay ''down_0'', GameUpdate, MenuScreen 2, Flip, Tick])"
    by (simp add: run_defs)
  have i: "init tally True = vars MENU 1 (0, 0) False"
    by (simp add: init_def vars_def tally_def)
  have l: "main_loop tally clips [keys False False True True] (init tally True) =
     Inr ((vars MENU 1 (0, 0) False)\<lparr>num_players := 2, game := (1, 0)\<rparr>,
          [SfxPlay ''down_0'', GameUpdate, MenuScreen 2, Flip, Tick])"
    by (simp add: i f)
  from num_players_1_or_2 [of tally True clips "keys False False True True"
      "vars MENU 1 (0, 0) False" _ _ "[keys False False True True]"] f l
  show ?thesis by blast
qed

subsection \<open>The rising edge of SPACE\<close>

lemma length_rising_edges [simp]: "length (rising_edges p ks) = length ks"
  by (induction ks arbitrary: p) simp_all

lemma rising_edges_nth:
  "n < length ks \<Longrightarrow>
     rising_edges p ks ! n = (ks ! n \<and> \<not> (if n = 0 then p else ks ! (n - 1)))"
proof (induction ks arbitrary: p n)
  case Nil
  then show ?case by simp
next
  case (Cons k ks)
  show ?case
  proof (cases n)
    case 0
    then show ?thesis by simp
  next
    case (Suc m)
    with Cons.prems have "m < length ks" by simp
    from Cons.IH [OF this, of k] Suc show ?thesis
      by (cases m) simp_all
  qed
qed

text \<open>The flags of the iterations that ran are the rising edges of the SPACE states read.\<close>

lemma space_flags_prefix:
  "\<exists>n. space_flags G sfx inps s = take n (rising_edges (space_down s) (map K_SPACE inps))"
proof (induction inps arbitrary: s)
  case Nil
  show ?case by simp
next
  case (Cons inp inps)
  let ?R = "rising_edges (space_down s) (map K_SPACE (inp # inps))"
  have R: "?R = (K_SPACE inp \<and> \<not> space_down s) # rising_edges (K_SPACE inp) (map K_SPACE inps)"
    by simp
  show ?case
  proof (cases "running s")
    case False
    then have "space_flags G sfx (inp # inps) s = take 0 ?R" by simp
    then show ?thesis by blast
  next
    case True
    show ?thesis
    proof (cases "main_frame G sfx inp s")
      case (Inl e)
      with True have "space_flags G sfx (inp # inps) s = take (Suc 0) ?R"
        by (simp add: space_edge_def)
      then show ?thesis by blast
    next
      case (Inr p)
      obtain s1 fx1 where p: "p = (s1, fx1)" by (cases p)
      from main_frame_Inr(2) [OF Inr [unfolded p]] have sd: "space_down s1 = K_SPACE inp" .
      from Cons.IH [of s1] obtain n where
        n: "space_flags G sfx inps s1 = take n (rising_edges (K_SPACE inp) (map K_SPACE inps))"
        unfolding sd by blast
      have "space_flags G sfx (inp # inps) s = take (Suc n) ?R"
        using True Inr p by (simp add: space_edge_def n)
      then show ?thesis by blast
    qed
  qed
qed

lemma length_space_flags: "length (space_flags G sfx inps s) \<le> length inps"
proof -
  from space_flags_prefix [of G sfx inps s] obtain n where
    "space_flags G sfx inps s = take n (rising_edges (space_down s) (map K_SPACE inps))"
    by blast
  then show ?thesis by simp
qed

lemma space_flags_full:
  assumes "sfx_ok sfx" and "\<forall>g. bats G g \<noteq> []"
  shows "running s \<Longrightarrow> \<forall>i\<in>set inps. QUIT \<notin> set (events i) \<Longrightarrow>
     space_flags G sfx inps s = rising_edges (space_down s) (map K_SPACE inps)"
proof (induction inps arbitrary: s)
  case Nil
  show ?case by simp
next
  case (Cons inp inps)
  from main_frame_total [OF assms, of inp s] obtain s1 fx1 where
    f: "main_frame G sfx inp s = Inr (s1, fx1)" by blast
  from main_frame_Inr(1,2) [OF f] Cons.prems have
    r: "running s1" and sd: "space_down s1 = K_SPACE inp" by simp_all
  from Cons.IH [OF r] Cons.prems(2) sd have
    "space_flags G sfx inps s1 = rising_edges (K_SPACE inp) (map K_SPACE inps)" by simp
  with Cons.prems(1) f show ?case by (simp add: space_edge_def)
qed

text \<open>
  Claim C2. The flag of a frame is the SPACE of the frame and not \<open>space_down\<close>, and an
  iteration that returns leaves the SPACE of its frame in \<open>space_down\<close>, which is false before
  the first iteration. So in every iteration that \<open>main\<close> runs the flag is true exactly when
  SPACE is down in that frame and the frame is the first or SPACE was up in the frame before.
  For five frames with SPACE down, down, down, up, down, none of which closes the window or
  raises, the flags are true, false, false, false, true.
\<close>

theorem space_rising_edge:
  "fst (space_edge now prev) = (now \<and> \<not> prev)
   \<and> (main_frame G sfx inp s = Inr (s', fx) \<longrightarrow> space_down s' = K_SPACE inp)
   \<and> \<not> space_down (init G w0)
   \<and> (\<forall>n < length (space_flags G sfx inps (init G w0)).
         space_flags G sfx inps (init G w0) ! n =
           (K_SPACE (inps ! n) \<and> \<not> (0 < n \<and> K_SPACE (inps ! (n - 1)))))
   \<and> (sfx_ok sfx \<and> (\<forall>g. bats G g \<noteq> []) \<and> (\<forall>i\<in>set inps. QUIT \<notin> set (events i))
        \<and> map K_SPACE inps = [True, True, True, False, True] \<longrightarrow>
          space_flags G sfx inps (init G w0) = [True, False, False, False, True])"
proof (intro conjI impI allI)
  show "fst (space_edge now prev) = (now \<and> \<not> prev)" by (simp add: space_edge_def)
next
  assume "main_frame G sfx inp s = Inr (s', fx)"
  then show "space_down s' = K_SPACE inp" by (rule main_frame_Inr(2))
next
  show "\<not> space_down (init G w0)" by (simp add: init_def)
next
  fix n
  assume n: "n < length (space_flags G sfx inps (init G w0))"
  let ?fl = "space_flags G sfx inps (init G w0)"
  let ?ks = "map K_SPACE inps"
  have len: "n < length inps"
    using n length_space_flags [of G sfx inps "init G w0"] by simp
  from space_flags_prefix [of G sfx inps "init G w0"] obtain m where
    m: "?fl = take m (rising_edges (space_down (init G w0)) ?ks)" by blast
  have "n < m" using n by (subst (asm) m) simp
  then have "?fl ! n = rising_edges False ?ks ! n"
    by (subst m) (simp add: init_def)
  also have "\<dots> = (?ks ! n \<and> \<not> (if n = 0 then False else ?ks ! (n - 1)))"
    using len by (simp add: rising_edges_nth)
  also have "\<dots> = (K_SPACE (inps ! n) \<and> \<not> (0 < n \<and> K_SPACE (inps ! (n - 1))))"
    using len by (cases n) simp_all
  finally show "?fl ! n = (K_SPACE (inps ! n) \<and> \<not> (0 < n \<and> K_SPACE (inps ! (n - 1))))" .
next
  assume a: "sfx_ok sfx \<and> (\<forall>g. bats G g \<noteq> []) \<and> (\<forall>i\<in>set inps. QUIT \<notin> set (events i))
        \<and> map K_SPACE inps = [True, True, True, False, True]"
  have r: "running (init G w0)" by (simp add: init_def)
  from a have ok: "sfx_ok sfx" and b: "\<forall>g. bats G g \<noteq> []"
    and q: "\<forall>i\<in>set inps. QUIT \<notin> set (events i)"
    and ks: "map K_SPACE inps = [True, True, True, False, True]"
    by simp_all
  have "space_flags G sfx inps (init G w0) =
      rising_edges (space_down (init G w0)) (map K_SPACE inps)"
    using space_flags_full [OF ok b r q] .
  then show "space_flags G sfx inps (init G w0) = [True, False, False, False, True]"
    unfolding ks by (simp add: init_def)
qed

theorem space_rising_edge_witness:
  "sfx_ok clips \<and> (\<forall>g. bats tally g \<noteq> [])
   \<and> QUIT \<notin> set (events (keys True False False True))
   \<and> QUIT \<notin> set (events (keys False False False True))
   \<and> map K_SPACE [keys True False False True, keys True False False True,
        keys True False False True, keys False False False True, keys True False False True]
       = [True, True, True, False, True]
   \<and> space_flags tally clips
        [keys True False False True, keys True False False True,
         keys True False False True, keys False False False True, keys True False False True]
        (init tally True)
       = [True, False, False, False, True]"
proof -
  let ?inps = "[keys True False False True, keys True False False True,
        keys True False False True, keys False False False True, keys True False False True]"
  have e: "QUIT \<notin> set (events (keys True False False True))"
    "QUIT \<notin> set (events (keys False False False True))"
    by simp_all
  then have q: "\<forall>i\<in>set ?inps. QUIT \<notin> set (events i)" by simp
  have ks: "map K_SPACE ?inps = [True, True, True, False, True]" by simp
  note edge = space_rising_edge [of _ _ tally clips _ _ _ _ True ?inps]
  note run = edge [THEN conjunct2, THEN conjunct2, THEN conjunct2, THEN conjunct2, THEN mp]
  have "space_flags tally clips ?inps (init tally True) = [True, False, False, False, True]"
    by (rule run) (intro conjI clips_ok tally_bats q ks)
  then show ?thesis
    by (intro conjI clips_ok tally_bats e ks)
qed

subsection \<open>The frames of a transition\<close>

text \<open>
  Claim C9. In the iteration that takes MENU to PLAY (both menu cues loaded) the new game
  is the one the constructor built: the iteration makes no call of \<open>game.update()\<close> and none
  of \<open>game.draw\<close>, and it draws the menu screen. In the iteration after it, for any input,
  the new game is updated once and the updated game is drawn (whenever the updated game has
  a bat, so that the comparison of the scores does not raise). In the iteration that takes
  GAME_OVER to MENU the game-over screen is drawn, not the menu, and the new game is neither
  updated nor drawn.
\<close>

theorem transition_frame_screens:
  "(state s = MENU \<and> sfx_ok sfx \<and> K_SPACE inp \<and> \<not> space_down s \<longrightarrow>
      (\<exists>s' fx. main_frame G sfx inp s = Inr (s', fx)
         \<and> state s' = PLAY
         \<and> game s' = Game G (world inp) (controls s')
         \<and> GameUpdate \<notin> set fx \<and> (\<forall>g. GameDraw g \<notin> set fx)
         \<and> MenuScreen (num_players s') \<in> set fx
         \<and> (\<forall>inp2. bats G (update G inp2 (game s')) \<noteq> [] \<longrightarrow>
               (\<exists>s''. main_frame G sfx inp2 s' =
                        Inr (s'', [GameUpdate, GameDraw (update G inp2 (game s')), Flip, Tick])
                  \<and> game s'' = update G inp2 (game s')))))
   \<and> (state t = GAME_OVER \<and> K_SPACE inp \<and> \<not> space_down t \<longrightarrow>
        (\<exists>t' fx. main_frame G sfx inp t = Inr (t', fx)
           \<and> state t' = MENU
           \<and> game t' = Game G (world inp) (None, None)
           \<and> GameOverScreen \<in> set fx \<and> (\<forall>n. MenuScreen n \<notin> set fx)
           \<and> GameUpdate \<notin> set fx \<and> (\<forall>g. GameDraw g \<notin> set fx)))"
proof (intro conjI impI)
  assume a: "state s = MENU \<and> sfx_ok sfx \<and> K_SPACE inp \<and> \<not> space_down s"
  then have m: "state s = MENU" and ok: "sfx_ok sfx" and e: "K_SPACE inp \<and> \<not> space_down s"
    by simp_all
  let ?s0 = "s\<lparr>running := poll_events (events inp) (running s), space_down := K_SPACE inp\<rparr>"
  from menu_select_ok [OF ok, of inp ?s0] obtain n fx1 where
    ms: "menu_select sfx inp ?s0 = Inr (?s0\<lparr>num_players := n\<rparr>, fx1)"
    and nu: "GameUpdate \<notin> set fx1" and nd: "\<forall>g. GameDraw g \<notin> set fx1"
    by blast
  define c where "c = (Some p1_controls, if n = 2 then Some p2_controls else None)"
  define s' where "s' = ?s0\<lparr>num_players := n, state := PLAY, controls := c,
                              game := Game G (world inp) c\<rparr>"
  define fx where "fx = fx1 @ [MenuScreen n, Flip, Tick]"
  have fr: "main_frame G sfx inp s = Inr (s', fx)"
    using main_frame_menu_result [OF m ms, of G] e by (simp add: s'_def fx_def c_def)
  have st: "state s' = PLAY" and g: "game s' = Game G (world inp) (controls s')"
    and np: "num_players s' = n"
    by (simp_all add: s'_def)
  have fxs: "GameUpdate \<notin> set fx" "\<forall>g. GameDraw g \<notin> set fx" "MenuScreen (num_players s') \<in> set fx"
    using nu nd by (simp_all add: fx_def np)
  have nxt: "\<exists>s''. main_frame G sfx inp2 s' =
                Inr (s'', [GameUpdate, GameDraw (update G inp2 (game s')), Flip, Tick])
              \<and> game s'' = update G inp2 (game s')"
    if "bats G (update G inp2 (game s')) \<noteq> []" for inp2
    using main_frame_play_result [OF st that, of sfx] by simp
  show "\<exists>s' fx. main_frame G sfx inp s = Inr (s', fx)
         \<and> state s' = PLAY
         \<and> game s' = Game G (world inp) (controls s')
         \<and> GameUpdate \<notin> set fx \<and> (\<forall>g. GameDraw g \<notin> set fx)
         \<and> MenuScreen (num_players s') \<in> set fx
         \<and> (\<forall>inp2. bats G (update G inp2 (game s')) \<noteq> [] \<longrightarrow>
               (\<exists>s''. main_frame G sfx inp2 s' =
                        Inr (s'', [GameUpdate, GameDraw (update G inp2 (game s')), Flip, Tick])
                  \<and> game s'' = update G inp2 (game s')))"
    using fr st g fxs nxt by blast
next
  assume "state t = GAME_OVER \<and> K_SPACE inp \<and> \<not> space_down t"
  then show "\<exists>t' fx. main_frame G sfx inp t = Inr (t', fx)
           \<and> state t' = MENU
           \<and> game t' = Game G (world inp) (None, None)
           \<and> GameOverScreen \<in> set fx \<and> (\<forall>n. MenuScreen n \<notin> set fx)
           \<and> GameUpdate \<notin> set fx \<and> (\<forall>g. GameDraw g \<notin> set fx)"
    by (simp add: main_frame_game_over_result)
qed

theorem transition_frame_screens_witness:
  "state (vars MENU 1 (3, 1) False) = MENU \<and> sfx_ok clips
   \<and> K_SPACE (keys True False False True) \<and> \<not> space_down (vars MENU 1 (3, 1) False)
   \<and> (\<exists>s' fx. main_frame tally clips (keys True False False True) (vars MENU 1 (3, 1) False)
                 = Inr (s', fx)
         \<and> state s' = PLAY
         \<and> game s' = Game tally (world (keys True False False True)) (controls s')
         \<and> GameUpdate \<notin> set fx \<and> (\<forall>g. GameDraw g \<notin> set fx)
         \<and> MenuScreen (num_players s') \<in> set fx
         \<and> (\<forall>inp2. bats tally (update tally inp2 (game s')) \<noteq> [] \<longrightarrow>
               (\<exists>s''. main_frame tally clips inp2 s' =
                        Inr (s'', [GameUpdate, GameDraw (update tally inp2 (game s')), Flip, Tick])
                  \<and> game s'' = update tally inp2 (game s'))))
   \<and> state (vars GAME_OVER 2 (10, 2) False) = GAME_OVER
   \<and> (\<exists>t' fx. main_frame tally clips (keys True False False True) (vars GAME_OVER 2 (10, 2) False)
                 = Inr (t', fx)
           \<and> state t' = MENU
           \<and> game t' = Game tally (world (keys True False False True)) (None, None)
           \<and> GameOverScreen \<in> set fx \<and> (\<forall>n. MenuScreen n \<notin> set fx)
           \<and> GameUpdate \<notin> set fx \<and> (\<forall>g. GameDraw g \<notin> set fx))"
proof -
  have m: "state (vars MENU 1 (3, 1) False) = MENU"
    and k: "K_SPACE (keys True False False True)"
    and d: "\<not> space_down (vars MENU 1 (3, 1) False)"
    and o: "state (vars GAME_OVER 2 (10, 2) False) = GAME_OVER"
    and d': "\<not> space_down (vars GAME_OVER 2 (10, 2) False)"
    by simp_all
  note both = transition_frame_screens
    [of "vars MENU 1 (3, 1) False" clips "keys True False False True" tally
        "vars GAME_OVER 2 (10, 2) False"]
  show ?thesis
    by (intro conjI m clips_ok k d o
        both [THEN conjunct1, THEN mp] both [THEN conjunct2, THEN mp] d')
qed

subsection \<open>The game in the state GAME_OVER\<close>

text \<open>In the state GAME_OVER the loop leaves the game alone until SPACE rises.\<close>

lemma game_over_loop:
  assumes "state s = GAME_OVER"
    and "True \<notin> set (rising_edges (space_down s) (map K_SPACE inps))"
  shows "\<exists>s' fx. main_loop G sfx inps s = Inr (s', fx)
           \<and> state s' = GAME_OVER \<and> game s' = game s \<and> GameUpdate \<notin> set fx"
  using assms
proof (induction inps arbitrary: s)
  case Nil
  then show ?case by simp
next
  case (Cons inp inps)
  show ?case
  proof (cases "running s")
    case False
    with Cons.prems(1) show ?thesis by simp
  next
    case True
    from Cons.prems(2) have ne: "\<not> (K_SPACE inp \<and> \<not> space_down s)"
      and rest: "True \<notin> set (rising_edges (K_SPACE inp) (map K_SPACE inps))"
      by auto
    define s1 where
      "s1 = s\<lparr>running := poll_events (events inp) (running s), space_down := K_SPACE inp\<rparr>"
    have f: "main_frame G sfx inp s = Inr (s1, [GameOverScreen, Flip, Tick])"
      using main_frame_game_over_result [OF Cons.prems(1), of G sfx inp] ne
      by (simp add: s1_def)
    have s1: "state s1 = GAME_OVER" "space_down s1 = K_SPACE inp" "game s1 = game s"
      using Cons.prems(1) by (simp_all add: s1_def)
    from Cons.IH [of s1] s1 rest obtain s2 fx2 where
      l: "main_loop G sfx inps s1 = Inr (s2, fx2)"
      and p: "state s2 = GAME_OVER" "game s2 = game s" "GameUpdate \<notin> set fx2"
      by auto
    have "main_loop G sfx (inp # inps) s = Inr (s2, [GameOverScreen, Flip, Tick] @ fx2)"
      using True f l by simp
    with p show ?thesis by simp
  qed
qed

text \<open>
  Claim C10. An iteration in the state GAME_OVER always returns and never calls
  \<open>game.update()\<close>: without a rising edge of SPACE the state and the game (so the bats and
  their scores) are as before, and with one the state is MENU and the game is a newly built
  one. Over any number of frames in which SPACE does not rise, the loop stays in GAME_OVER
  with the same game and without a call of \<open>game.update()\<close>.
\<close>

theorem game_over_game_unchanged:
  assumes "state s = GAME_OVER"
  shows "(\<exists>s' fx. main_frame G sfx inp s = Inr (s', fx)
            \<and> GameUpdate \<notin> set fx
            \<and> (\<not> (K_SPACE inp \<and> \<not> space_down s) \<longrightarrow>
                 state s' = GAME_OVER \<and> game s' = game s
               \<and> map (score G) (bats G (game s')) = map (score G) (bats G (game s)))
            \<and> (K_SPACE inp \<and> \<not> space_down s \<longrightarrow>
                 state s' = MENU \<and> game s' = Game G (world inp) (None, None)))
       \<and> (True \<notin> set (rising_edges (space_down s) (map K_SPACE inps)) \<longrightarrow>
            (\<exists>s' fx. main_loop G sfx inps s = Inr (s', fx)
               \<and> state s' = GAME_OVER \<and> game s' = game s
               \<and> map (score G) (bats G (game s')) = map (score G) (bats G (game s))
               \<and> GameUpdate \<notin> set fx))"
proof (intro conjI impI)
  show "\<exists>s' fx. main_frame G sfx inp s = Inr (s', fx)
            \<and> GameUpdate \<notin> set fx
            \<and> (\<not> (K_SPACE inp \<and> \<not> space_down s) \<longrightarrow>
                 state s' = GAME_OVER \<and> game s' = game s
               \<and> map (score G) (bats G (game s')) = map (score G) (bats G (game s)))
            \<and> (K_SPACE inp \<and> \<not> space_down s \<longrightarrow>
                 state s' = MENU \<and> game s' = Game G (world inp) (None, None))"
    using assms by (simp add: main_frame_game_over_result)
next
  assume "True \<notin> set (rising_edges (space_down s) (map K_SPACE inps))"
  from game_over_loop [OF assms this, of G sfx] obtain s' fx where
    "main_loop G sfx inps s = Inr (s', fx)" "state s' = GAME_OVER" "game s' = game s"
    "GameUpdate \<notin> set fx"
    by blast
  then show "\<exists>s' fx. main_loop G sfx inps s = Inr (s', fx)
               \<and> state s' = GAME_OVER \<and> game s' = game s
               \<and> map (score G) (bats G (game s')) = map (score G) (bats G (game s))
               \<and> GameUpdate \<notin> set fx"
    by simp
qed

theorem game_over_game_unchanged_witness:
  "state (vars GAME_OVER 2 (10, 6) True) = GAME_OVER
   \<and> True \<notin> set (rising_edges (space_down (vars GAME_OVER 2 (10, 6) True))
        (map K_SPACE [keys True True False True, keys False False True False,
                      keys False True True True]))
   \<and> (\<exists>s' fx. main_loop tally clips
          [keys True True False True, keys False False True False, keys False True True True]
          (vars GAME_OVER 2 (10, 6) True) = Inr (s', fx)
        \<and> state s' = GAME_OVER \<and> game s' = game (vars GAME_OVER 2 (10, 6) True)
        \<and> map (score tally) (bats tally (game s'))
            = map (score tally) (bats tally (game (vars GAME_OVER 2 (10, 6) True)))
        \<and> GameUpdate \<notin> set fx)"
proof -
  have o: "state (vars GAME_OVER 2 (10, 6) True) = GAME_OVER" by simp
  have r: "True \<notin> set (rising_edges (space_down (vars GAME_OVER 2 (10, 6) True))
        (map K_SPACE [keys True True False True, keys False False True False,
                      keys False True True True]))"
    by simp
  note still = game_over_game_unchanged [OF o, of tally clips _
      "[keys True True False True, keys False False True False, keys False True True True]"]
  show ?thesis
    by (intro conjI o r still [THEN conjunct2, THEN mp])
qed

end
